theory Spec2Isabelle
  imports Complex_Main "HOL-Library.Sublist" "HOL-Library.Multiset"
begin

section \<open>Values produced by the key generator\<close>

text \<open>
  A Python \<open>float\<close> is an IEEE 754 binary64 value.  Its finite values are kept as the exact
  rational they denote (the two zeros are identified: they are equal under \<open>==\<close> and
  \<open><\<close>); the two infinities are separate constructors.  A Python 3 \<open>int\<close> is unbounded.
\<close>

datatype pyfloat = Finite rat | PosInf | NegInf

datatype pynum = IntV int | FloatV pyfloat

text \<open>
  The objects a key is made of: \<open>str\<close>, numbers, tuples of such objects, and \<open>None\<close>
  (what a Python function returns when it falls off its end).
\<close>

datatype key = Text string | Numeric pynum | Tuple "key list" | NoneK

section \<open>Regular expressions\<close>

text \<open>
  The six patterns of the module are built from character classes, the greedy
  quantifiers \<open>*\<close> and \<open>+\<close> on a class, the greedy \<open>?\<close> and concatenation.  Strings are lists
  of 8-bit characters, among which the class \<^verbatim>\<open>\d\<close> holds the ten digits \<open>0\<close> to \<open>9\<close>.

  \<open>rmatch r s\<close> lists the remainders of \<open>s\<close> after each way of matching \<open>r\<close> at the start of
  \<open>s\<close>, in the order in which a backtracking matcher tries them: a greedy quantifier takes
  the longest run first and gives characters back one at a time, an optional part is tried
  before it is left out.  The match that \<open>re\<close> reports is the first of the list.
\<close>

datatype regex =
    Cls "char list"
  | Star "char list"
  | Plus "char list"
  | Opt regex
  | Seq regex regex

fun many :: "char list \<Rightarrow> string \<Rightarrow> string list" where
  "many cs [] = [[]]"
| "many cs (c # s) = (if c \<in> set cs then many cs s @ [c # s] else [c # s])"

fun rmatch :: "regex \<Rightarrow> string \<Rightarrow> string list" where
  "rmatch (Cls cs) s = (case s of [] \<Rightarrow> [] | c # t \<Rightarrow> if c \<in> set cs then [t] else [])"
| "rmatch (Star cs) s = many cs s"
| "rmatch (Plus cs) s = (case s of [] \<Rightarrow> [] | c # t \<Rightarrow> if c \<in> set cs then many cs t else [])"
| "rmatch (Opt r) s = rmatch r s @ [s]"
| "rmatch (Seq r1 r2) s = concat (map (rmatch r2) (rmatch r1 s))"

text \<open>\<open>regex.match(s)\<close> as a truth value: is there a match at the start of \<open>s\<close>?\<close>

definition regex_match :: "regex \<Rightarrow> string \<Rightarrow> bool" where
  "regex_match r s = (rmatch r s \<noteq> [])"

text \<open>
  \<open>regex.search\<close>: the leftmost match, as the text skipped before it, the text matched and
  the rest of the string.
\<close>

fun regex_search :: "regex \<Rightarrow> string \<Rightarrow> (string \<times> string \<times> string) option" where
  "regex_search r s =
     (case rmatch r s of
        rest # _ \<Rightarrow> Some ([], take (length s - length rest) s, rest)
      | [] \<Rightarrow>
          (case s of
             [] \<Rightarrow> None
           | c # t \<Rightarrow>
               (case regex_search r t of
                  None \<Rightarrow> None
                | Some (skipped, matched, rest) \<Rightarrow> Some (c # skipped, matched, rest))))"

text \<open>
  \<open>regex.split(s)\<close> for a pattern that is one capturing group: the texts between the
  successive matches and the matches themselves, alternately; a string with no match comes
  back alone.  The test on the lengths is what makes the recursion terminate; it holds at
  every match of a pattern that cannot match the empty string, as is the case of the six
  patterns below (\<open>pattern_ok_nonempty\<close>).
\<close>

function regex_split :: "regex \<Rightarrow> string \<Rightarrow> string list" where
  "regex_split r s =
     (case regex_search r s of
        None \<Rightarrow> [s]
      | Some (skipped, matched, rest) \<Rightarrow>
          if length rest < length s then skipped # matched # regex_split r rest
          else [s])"
  by pat_completeness auto
termination
  by (relation "measure (\<lambda>(r, s). length s)") auto

declare regex_search.simps [simp del] regex_split.simps [simp del]

text \<open>The classes \<^verbatim>\<open>\d\<close>, \<^verbatim>\<open>[-+]\<close>, \<^verbatim>\<open>\.\<close> and \<^verbatim>\<open>[eE]\<close>.\<close>

definition digit :: "char list" where "digit = ''0123456789''"

definition sign :: "char list" where "sign = ''-+''"

definition dot :: "char list" where "dot = ''.''"

definition eE :: "char list" where "eE = ''eE''"

text \<open>The parts \<^verbatim>\<open>(?:[eE][-+]?\d+)?\<close> and \<^verbatim>\<open>\d*\.?\d+\<close> of the float patterns.\<close>

definition exponent :: regex where
  "exponent = Opt (Seq (Cls eE) (Seq (Opt (Cls sign)) (Plus digit)))"

definition mantissa :: regex where
  "mantissa = Seq (Star digit) (Seq (Opt (Cls dot)) (Plus digit))"

text \<open>
  The patterns, in the order of the source:
  \<^verbatim>\<open>([-+]?\d*\.?\d+(?:[eE][-+]?\d+)?)\<close>, \<^verbatim>\<open>(\d*\.?\d+(?:[eE][-+]?\d+)?)\<close>,
  \<^verbatim>\<open>([-+]?\d*\.?\d+)\<close>, \<^verbatim>\<open>(\d*\.?\d+)\<close>, \<^verbatim>\<open>(\d+)\<close> and \<^verbatim>\<open>([-+]?\d+)\<close>.
\<close>

definition float_sign_exp_re :: regex where
  "float_sign_exp_re = Seq (Opt (Cls sign)) (Seq mantissa exponent)"

definition float_nosign_exp_re :: regex where
  "float_nosign_exp_re = Seq mantissa exponent"

definition float_sign_noexp_re :: regex where
  "float_sign_noexp_re = Seq (Opt (Cls sign)) mantissa"

definition float_nosign_noexp_re :: regex where
  "float_nosign_noexp_re = mantissa"

definition int_nosign_re :: regex where
  "int_nosign_re = Plus digit"

definition int_sign_re :: regex where
  "int_sign_re = Seq (Opt (Cls sign)) (Plus digit)"

section \<open>Number conversion: \<open>int\<close> and \<open>float\<close>\<close>

text \<open>The number written by a run of decimal digits.\<close>

definition digit_value :: "char \<Rightarrow> nat" where
  "digit_value c = of_char c - 48"

definition digits_value :: "string \<Rightarrow> nat" where
  "digits_value ds = foldl (\<lambda>n c. 10 * n + digit_value c) 0 ds"

definition is_digits :: "string \<Rightarrow> bool" where
  "is_digits ds = (ds \<noteq> [] \<and> list_all (\<lambda>c. c \<in> set digit) ds)"

text \<open>An optional leading sign: whether it is a minus, and what follows it.\<close>

definition split_sign :: "string \<Rightarrow> bool \<times> string" where
  "split_sign s =
     (case s of
        [] \<Rightarrow> (False, [])
      | c # t \<Rightarrow>
          if c = CHR ''-'' then (True, t) else if c = CHR ''+'' then (False, t) else (False, s))"

definition signed_value :: "string \<Rightarrow> int option" where
  "signed_value s =
     (case split_sign s of (neg, ds) \<Rightarrow>
        if is_digits ds then Some (if neg then - int (digits_value ds) else int (digits_value ds))
        else None)"

text \<open>
  \<open>int(x)\<close> for a string \<open>x\<close>: an optional sign and decimal digits give the integer, of any
  size (no bound on the number of digits is modelled).  Python also accepts surrounding
  white space and underscores between digits; the model raises there, so whatever it
  accepts Python accepts, with the same value.
\<close>

definition py_int :: "string \<Rightarrow> int option" where
  "py_int x = signed_value x"

text \<open>Powers of two with an integer exponent.\<close>

definition pow2 :: "int \<Rightarrow> rat" where
  "pow2 e = (if 0 \<le> e then 2 ^ nat e else 1 / 2 ^ nat (- e))"

definition pow10 :: "int \<Rightarrow> rat" where
  "pow10 e = (if 0 \<le> e then 10 ^ nat e else 1 / 10 ^ nat (- e))"

fun bit_length :: "nat \<Rightarrow> nat" where
  "bit_length n = (if n = 0 then 0 else Suc (bit_length (n div 2)))"

declare bit_length.simps [simp del]

text \<open>For \<open>x > 0\<close>, the integer \<open>e\<close> with \<open>2^e \<le> x < 2^(e+1)\<close>.\<close>

definition binade :: "rat \<Rightarrow> int" where
  "binade x =
     (if 1 \<le> x then int (bit_length (nat \<lfloor>x\<rfloor>)) - 1
      else - int (bit_length (nat (\<lceil>1 / x\<rceil> - 1))))"

definition round_half_even :: "rat \<Rightarrow> int" where
  "round_half_even q =
     (let f = \<lfloor>q\<rfloor>; d = q - of_int f
      in if d < 1 / 2 then f else if 1 / 2 < d then f + 1 else if even f then f else f + 1)"

text \<open>
  The binary64 value nearest to a rational, ties to the even significand: 53 significant
  bits, the least exponent of a unit in the last place \<open>-1074\<close>, and an infinity from
  \<open>2^1024\<close> on.
\<close>

definition round_double :: "rat \<Rightarrow> pyfloat" where
  "round_double x =
     (if x = 0 then Finite 0
      else
        let a = \<bar>x\<bar>;
            ulp = pow2 (max (binade a - 52) (- 1074));
            r = of_int (round_half_even (a / ulp)) * ulp
        in if 2 ^ 1024 \<le> r then (if x < 0 then NegInf else PosInf)
           else Finite (if x < 0 then - r else r))"

text \<open>The exponent part of a float literal: nothing, or \<open>e\<close>/\<open>E\<close> and a signed integer.\<close>

definition exponent_value :: "string \<Rightarrow> int option" where
  "exponent_value s =
     (case s of
        [] \<Rightarrow> Some 0
      | c # t \<Rightarrow> if c \<in> set eE then signed_value t else None)"

text \<open>
  \<open>float(x)\<close> for a string \<open>x\<close>: an optional sign, digits with an optional point (at least
  one digit before or after it) and an optional exponent give the correctly rounded
  binary64 value; a too large literal gives an infinity, not an exception.  Python also
  accepts \<open>inf\<close>, \<open>nan\<close>, white space and underscores; the model raises there.
\<close>

definition py_float :: "string \<Rightarrow> pyfloat option" where
  "py_float x =
     (case split_sign x of (neg, s1) \<Rightarrow>
        let ip = takeWhile (\<lambda>c. c \<in> set digit) s1;
            s2 = dropWhile (\<lambda>c. c \<in> set digit) s1;
            fp = (case s2 of [] \<Rightarrow> [] | c # t \<Rightarrow>
                    if c = CHR ''.'' then takeWhile (\<lambda>c. c \<in> set digit) t else []);
            s3 = (case s2 of [] \<Rightarrow> [] | c # t \<Rightarrow>
                    if c = CHR ''.'' then dropWhile (\<lambda>c. c \<in> set digit) t else s2)
        in if ip = [] \<and> fp = [] then None
           else
             (case exponent_value s3 of
                None \<Rightarrow> None
              | Some e \<Rightarrow>
                  let m = of_nat (digits_value (ip @ fp)) * pow10 (e - int (length fp))
                  in Some (round_double (if neg then - m else m))))"

section \<open>Options, exceptions and the table of patterns\<close>

text \<open>
  The two conversion functions of the table, the three options of \<open>_natsort_key\<close>, and
  the objects the options are called with: \<open>None\<close>, booleans, integers, strings and the
  types \<open>float\<close> and \<open>int\<close>.  All of them are hashable, so that the lookup in the table
  either finds an entry or raises \<open>KeyError\<close>.
\<close>

datatype numconv = Conv_int | Conv_float

datatype param = Number_type | Signed | Exp

datatype pyobj = PyNone | PyBool bool | PyInt int | PyStr string | Type_float | Type_int

text \<open>
  The exceptions: the \<open>ValueError\<close> of \<open>_natsort_key\<close>, which names a parameter and shows
  its value; the \<open>ValueError\<close> of \<open>int\<close> and \<open>float\<close> on a string they do not accept; and
  the \<open>IndexError\<close> of \<open>s[0]\<close> on an empty list.
\<close>

datatype error = Invalid_parameter param pyobj | Invalid_literal string | IndexError

definition convert :: "numconv \<Rightarrow> string \<Rightarrow> error + pynum" where
  "convert numconv x =
     (case numconv of
        Conv_int \<Rightarrow> (case py_int x of None \<Rightarrow> Inl (Invalid_literal x) | Some i \<Rightarrow> Inr (IntV i))
      | Conv_float \<Rightarrow>
          (case py_float x of None \<Rightarrow> Inl (Invalid_literal x) | Some f \<Rightarrow> Inr (FloatV f)))"

text \<open>
  Python's \<open>==\<close> on the option objects: \<open>True\<close> and \<open>1\<close> are equal (and hash alike), as
  are \<open>False\<close> and \<open>0\<close>; a type is equal to itself only.
\<close>

fun py_eq :: "pyobj \<Rightarrow> pyobj \<Rightarrow> bool" where
  "py_eq (PyBool b) (PyInt i) = (i = (if b then 1 else 0))"
| "py_eq (PyInt i) (PyBool b) = (i = (if b then 1 else 0))"
| "py_eq x y = (x = y)"

text \<open>
  A dictionary with tuples of three objects as keys, looked up by \<open>==\<close> on the components;
  an absent key is \<open>None\<close> here and a \<open>KeyError\<close> there.
\<close>

fun dict_get :: "((pyobj \<times> pyobj \<times> pyobj) \<times> 'v) list \<Rightarrow> pyobj \<times> pyobj \<times> pyobj \<Rightarrow> 'v option" where
  "dict_get [] k = None"
| "dict_get (((a, b, c), v) # d) (x, y, z) =
     (if py_eq x a \<and> py_eq y b \<and> py_eq z c then Some v else dict_get d (x, y, z))"

definition regex_and_num_function_chooser ::
    "((pyobj \<times> pyobj \<times> pyobj) \<times> (regex \<times> numconv)) list" where
  "regex_and_num_function_chooser =
     [((Type_float, PyBool True,  PyBool True),  (float_sign_exp_re,     Conv_float)),
      ((Type_float, PyBool True,  PyBool False), (float_sign_noexp_re,   Conv_float)),
      ((Type_float, PyBool False, PyBool True),  (float_nosign_exp_re,   Conv_float)),
      ((Type_float, PyBool False, PyBool False), (float_nosign_noexp_re, Conv_float)),
      ((Type_int,   PyBool True,  PyBool True),  (int_sign_re,   Conv_int)),
      ((Type_int,   PyBool True,  PyBool False), (int_sign_re,   Conv_int)),
      ((Type_int,   PyBool False, PyBool True),  (int_nosign_re, Conv_int)),
      ((Type_int,   PyBool False, PyBool False), (int_nosign_re, Conv_int)),
      ((PyNone,     PyBool True,  PyBool True),  (int_nosign_re, Conv_int)),
      ((PyNone,     PyBool True,  PyBool False), (int_nosign_re, Conv_int)),
      ((PyNone,     PyBool False, PyBool True),  (int_nosign_re, Conv_int)),
      ((PyNone,     PyBool False, PyBool False), (int_nosign_re, Conv_int))]"

section \<open>\<open>_py3_safe\<close>\<close>

text \<open>
  \<open>type(x) in number_types\<close> with \<open>number_types = set([float, int])\<close>: the numbers of
  Python 3.
\<close>

fun is_number :: "key \<Rightarrow> bool" where
  "is_number (Numeric _) = True"
| "is_number _ = False"

text \<open>
  One turn of the loop \<open>for before, after in zip(islice(l, 0, len(l)-1), islice(l, 1, None))\<close>,
  on the list built so far; the loop starts from \<open>[parsed_list[0]]\<close>, and a list of fewer
  than two elements is returned as it is.
\<close>

definition py3_safe_step :: "key list \<Rightarrow> key \<times> key \<Rightarrow> key list" where
  "py3_safe_step new_list p =
     (case p of (tok_before, tok_after) \<Rightarrow>
        (if is_number tok_before \<and> is_number tok_after then new_list @ [Text ''''] else new_list)
          @ [tok_after])"

definition py3_safe :: "key list \<Rightarrow> key list" where
  "py3_safe parsed_list =
     (if length parsed_list < 2 then parsed_list
      else foldl py3_safe_step [hd parsed_list]
             (zip (take (length parsed_list - 1) parsed_list) (drop 1 parsed_list)))"

text \<open>The number of positions at which two numbers stand side by side.\<close>

definition adjacent_numeric_pairs :: "key list \<Rightarrow> nat" where
  "adjacent_numeric_pairs l =
     length (filter (\<lambda>(a, b). is_number a \<and> is_number b) (zip l (drop 1 l)))"

section \<open>\<open>_number_finder\<close>\<close>

text \<open>A list of results that may be exceptions: the first exception, or all the values.\<close>

fun collect :: "(error + 'a) list \<Rightarrow> error + 'a list" where
  "collect [] = Inr []"
| "collect (Inl e # _) = Inl e"
| "collect (Inr x # rs) = (case collect rs of Inl e \<Rightarrow> Inl e | Inr xs \<Rightarrow> Inr (x # xs))"

text \<open>\<open>numconv(x) if r(x) else x\<close>, with \<open>r = regex.match\<close>.\<close>

definition convert_piece :: "regex \<Rightarrow> numconv \<Rightarrow> string \<Rightarrow> error + key" where
  "convert_piece regex numconv x =
     (if regex_match regex x
      then (case convert numconv x of Inl e \<Rightarrow> Inl e | Inr n \<Rightarrow> Inr (Numeric n))
      else Inr (Text x))"

text \<open>
  \<open>s[0][0]\<close> raises \<open>TypeError\<close> when \<open>s[0]\<close> is a number (or \<open>None\<close>), and an empty
  string is then put in front; it raises \<open>IndexError\<close>, which nothing catches, when \<open>s\<close> or
  \<open>s[0]\<close> is empty.
\<close>

definition lead_with_string :: "key list \<Rightarrow> error + key list" where
  "lead_with_string s =
     (case s of
        [] \<Rightarrow> Inl IndexError
      | Text x # _ \<Rightarrow> if x = [] then Inl IndexError else Inr s
      | Tuple ks # _ \<Rightarrow> if ks = [] then Inl IndexError else Inr s
      | Numeric _ # _ \<Rightarrow> Inr (Text '''' # s)
      | NoneK # _ \<Rightarrow> Inr (Text '''' # s))"

definition number_finder :: "string \<Rightarrow> regex \<Rightarrow> numconv \<Rightarrow> bool \<Rightarrow> error + key list" where
  "number_finder s regex numconv py3 =
     (let s1 = regex_split regex s in
      if length s1 = 1 then Inr (map Text s1)
      else
        (case collect (map (convert_piece regex numconv) (filter (\<lambda>x. x \<noteq> []) s1)) of
           Inl e \<Rightarrow> Inl e
         | Inr s2 \<Rightarrow>
             (case lead_with_string s2 of
                Inl e \<Rightarrow> Inl e
              | Inr s3 \<Rightarrow> Inr (if py3 then py3_safe s3 else s3))))"

section \<open>\<open>_natsort_key\<close> and \<open>natsort_keygen\<close>\<close>

text \<open>
  The values to sort: a string, a number (which supports neither \<open>regex.split\<close> nor
  iteration), or a sequence of values.
\<close>

datatype pyval = Str string | Num pynum | Sequence "pyval list"

text \<open>
  An element of a sequence is smaller than the sequence: the recursion descends into the
  elements of the value that the pre-transform, applied once, has produced, and from there
  on into elements of elements with no pre-transform.
\<close>

lemma size_element: "x \<in> set xs \<Longrightarrow> size x < Suc (size_list size xs)"
  by (induction xs) auto

text \<open>
  \<open>_natsort_key(val, key, number_type, signed, exp, py3_safe)\<close>.  The lookup in the table
  comes first; when it fails, the three options are examined in turn, and a function that
  finds none of them at fault falls off its end.  Otherwise \<open>key\<close> is applied if there is
  one, and the kind of the value decides: the source tells the kinds apart by the
  \<open>TypeError\<close> that \<open>regex.split\<close> raises on what is not a string and that iteration raises
  on a number.  The recursive calls pass \<open>None\<close> for \<open>key\<close>.
\<close>

function natsort_key ::
    "pyval \<Rightarrow> (pyval \<Rightarrow> pyval) option \<Rightarrow> pyobj \<Rightarrow> pyobj \<Rightarrow> pyobj \<Rightarrow> bool \<Rightarrow> error + key" where
  "natsort_key val key number_type signed exp' py3 =
     (case dict_get regex_and_num_function_chooser (number_type, signed, exp') of
        None \<Rightarrow>
          if \<not> (py_eq number_type Type_float \<or> py_eq number_type Type_int) \<and> number_type \<noteq> PyNone
            then Inl (Invalid_parameter Number_type number_type)
          else if \<not> (py_eq signed (PyBool True) \<or> py_eq signed (PyBool False))
            then Inl (Invalid_parameter Signed signed)
          else if \<not> (py_eq exp' (PyBool True) \<or> py_eq exp' (PyBool False))
            then Inl (Invalid_parameter Exp exp')
          else Inr NoneK
      | Some (regex, num_function) \<Rightarrow>
          (case (case key of None \<Rightarrow> val | Some f \<Rightarrow> f val) of
             Str s \<Rightarrow>
               (case number_finder s regex num_function py3 of
                  Inl e \<Rightarrow> Inl e
                | Inr ts \<Rightarrow> Inr (Tuple ts))
           | Sequence xs \<Rightarrow>
               (case collect (map (\<lambda>x. natsort_key x None number_type signed exp' py3) xs) of
                  Inl e \<Rightarrow> Inl e
                | Inr ks \<Rightarrow> Inr (Tuple ks))
           | Num n \<Rightarrow> Inr (Tuple [Text '''', Numeric n])))"
  by pat_completeness auto

termination
  by (relation "measure (\<lambda>(val, key, _).
        case key of None \<Rightarrow> size val | Some f \<Rightarrow> Suc (size (f val)))")
     (auto split: option.splits dest: size_element)

declare natsort_key.simps [simp del]


section \<open>Comparing keys\<close>

text \<open>
  Python 3 compares tuples element by element: the first pair of elements that are not
  equal decides, and a tuple that is a proper prefix of another is less.  Strings compare
  by code points, numbers by value (an \<open>int\<close> and a \<open>float\<close> exactly), and \<open><\<close> between a
  string and a number, or with \<open>None\<close>, raises \<open>TypeError\<close>: the result \<open>None\<close> below.
  Equality never raises.
\<close>

fun float_lt :: "pyfloat \<Rightarrow> pyfloat \<Rightarrow> bool" where
  "float_lt (Finite a) (Finite b) = (a < b)"
| "float_lt (Finite a) PosInf = True"
| "float_lt NegInf (Finite b) = True"
| "float_lt NegInf PosInf = True"
| "float_lt _ _ = False"

fun num_value :: "pynum \<Rightarrow> pyfloat" where
  "num_value (IntV i) = Finite (of_int i)"
| "num_value (FloatV f) = f"

definition num_lt :: "pynum \<Rightarrow> pynum \<Rightarrow> bool" where
  "num_lt x y = float_lt (num_value x) (num_value y)"

definition num_eq :: "pynum \<Rightarrow> pynum \<Rightarrow> bool" where
  "num_eq x y = (num_value x = num_value y)"

fun str_lt :: "string \<Rightarrow> string \<Rightarrow> bool" where
  "str_lt [] [] = False"
| "str_lt [] (b # bs) = True"
| "str_lt (a # as) [] = False"
| "str_lt (a # as) (b # bs) =
     ((of_char a :: nat) < of_char b \<or> (a = b \<and> str_lt as bs))"

fun key_eq :: "key \<Rightarrow> key \<Rightarrow> bool" and keys_eq :: "key list \<Rightarrow> key list \<Rightarrow> bool" where
  "key_eq (Text a) (Text b) = (a = b)"
| "key_eq (Numeric x) (Numeric y) = num_eq x y"
| "key_eq (Tuple xs) (Tuple ys) = keys_eq xs ys"
| "key_eq NoneK NoneK = True"
| "key_eq _ _ = False"
| "keys_eq [] [] = True"
| "keys_eq (x # xs) (y # ys) = (key_eq x y \<and> keys_eq xs ys)"
| "keys_eq _ _ = False"

fun key_lt :: "key \<Rightarrow> key \<Rightarrow> bool option" and keys_lt :: "key list \<Rightarrow> key list \<Rightarrow> bool option" where
  "key_lt (Text a) (Text b) = Some (str_lt a b)"
| "key_lt (Numeric x) (Numeric y) = Some (num_lt x y)"
| "key_lt (Tuple xs) (Tuple ys) = keys_lt xs ys"
| "key_lt _ _ = None"
| "keys_lt [] [] = Some False"
| "keys_lt [] (y # ys) = Some True"
| "keys_lt (x # xs) [] = Some False"
| "keys_lt (x # xs) (y # ys) = (if key_eq x y then keys_lt xs ys else key_lt x y)"

section \<open>Notions used in the statements\<close>




text \<open>The value that is keyed: the one given, or what the pre-transform makes of it.\<close>

abbreviation pre :: "(pyval \<Rightarrow> pyval) option \<Rightarrow> pyval \<Rightarrow> pyval" where
  "pre key val \<equiv> (case key of None \<Rightarrow> val | Some f \<Rightarrow> f val)"


text \<open>
  The strings that are an optional sign followed by decimal digits, and the integer such
  a string denotes.
\<close>

definition is_int_string :: "string \<Rightarrow> bool" where
  "is_int_string a = (py_int a \<noteq> None)"

definition int_of_string :: "string \<Rightarrow> int" where
  "int_of_string a = (case py_int a of None \<Rightarrow> 0 | Some i \<Rightarrow> i)"

section \<open>Properties of \<open>_py3_safe\<close>\<close>

text \<open>
  The loop only ever appends, so its result is the first element followed by what
  \<open>sep\<close> makes of the remaining ones: each element, preceded by an empty string when it
  and its predecessor are both numbers.
\<close>

fun sep :: "key \<Rightarrow> key list \<Rightarrow> key list" where
  "sep b [] = []"
| "sep b (a # r) = (if is_number b \<and> is_number a then [Text ''''] else []) @ a # sep a r"

lemma foldl_step_sep: "foldl py3_safe_step acc (zip (b # r) r) = acc @ sep b r"
  by (induction r arbitrary: b acc) (simp_all add: py3_safe_step_def)

lemma zip_take_len: "zip (take (length r) (b # r)) r = zip (b # r) r"
proof -
  have "zip (take (length r) (b # r)) r = zip (take (length r) (b # r)) (take (length r) r)"
    by simp
  also have "\<dots> = take (length r) (zip (b # r) r)" by (simp only: take_zip)
  also have "\<dots> = zip (b # r) r" by simp
  finally show ?thesis .
qed

lemma py3_safe_Cons: "py3_safe (b # r) = b # sep b r"
proof (cases r)
  case Nil
  then show ?thesis by (simp add: py3_safe_def)
next
  case (Cons a r')
  have "py3_safe (b # r) = foldl py3_safe_step [b] (zip (take (length r) (b # r)) r)"
    using Cons by (simp add: py3_safe_def)
  then show ?thesis by (simp only: zip_take_len foldl_step_sep) simp
qed

lemma py3_safe_Nil: "py3_safe [] = []"
  by (simp add: py3_safe_def)

lemma pairs_Cons2:
  "adjacent_numeric_pairs (b # a # r) =
     (if is_number b \<and> is_number a then 1 else 0) + adjacent_numeric_pairs (a # r)"
  by (simp add: adjacent_numeric_pairs_def)

lemma pairs_single: "adjacent_numeric_pairs [b] = 0" "adjacent_numeric_pairs [] = 0"
  by (simp_all add: adjacent_numeric_pairs_def)

lemma length_sep: "length (b # sep b r) = length (b # r) + adjacent_numeric_pairs (b # r)"
  by (induction r arbitrary: b) (simp_all add: pairs_Cons2 pairs_single)

lemma sep_no_pairs: "adjacent_numeric_pairs (b # sep b r) = 0"
proof (induction r arbitrary: b)
  case Nil
  show ?case by (simp add: pairs_single)
next
  case (Cons a r)
  show ?case using Cons[of a] by (simp add: pairs_Cons2)
qed

lemma subseq_sep: "subseq r (sep b r)"
  by (induction r arbitrary: b) (auto intro: subseq_Cons')

lemma mset_sep:
  "mset (b # sep b r) =
     mset (b # r) + replicate_mset (adjacent_numeric_pairs (b # r)) (Text '''')"
  by (induction r arbitrary: b) (simp_all add: pairs_Cons2 pairs_single)

lemma sep_id: "adjacent_numeric_pairs (b # r) = 0 \<Longrightarrow> sep b r = r"
  by (induction r arbitrary: b) (auto simp: pairs_Cons2 split: if_splits)

lemma py3_safe_fixed: "adjacent_numeric_pairs l = 0 \<Longrightarrow> py3_safe l = l"
  by (cases l) (simp_all add: py3_safe_Nil py3_safe_Cons sep_id)

lemma py3_safe_no_pairs: "adjacent_numeric_pairs (py3_safe l) = 0"
  by (cases l) (simp_all add: py3_safe_Nil py3_safe_Cons sep_no_pairs pairs_single)

text \<open>
  C4.  A token sequence with \<open>k\<close> adjacent Numeric-Numeric pairs comes back from
  \<open>_py3_safe\<close> with exactly \<open>k\<close> more tokens and with no two Numeric tokens adjacent; the
  input tokens are still there in their original order (the input is a subsequence of the
  result), and what was added is \<open>k\<close> empty strings.
\<close>

theorem py3_safe_token_count:
  "length (py3_safe l) = length l + adjacent_numeric_pairs l
   \<and> adjacent_numeric_pairs (py3_safe l) = 0
   \<and> subseq l (py3_safe l)
   \<and> mset (py3_safe l) = mset l + replicate_mset (adjacent_numeric_pairs l) (Text '''')"
proof (cases l)
  case Nil
  then show ?thesis by (simp add: py3_safe_Nil pairs_single)
next
  case (Cons b r)
  show ?thesis
    unfolding Cons py3_safe_Cons
    using length_sep[of b r] sep_no_pairs[of b r] subseq_sep[of r b] mset_sep[of b r]
    by simp
qed

text \<open>
  C10.  \<open>_py3_safe\<close> is idempotent: its result has no two adjacent numbers, and on such a
  list it inserts nothing.
\<close>

theorem py3_safe_idempotent: "py3_safe (py3_safe l) = py3_safe l"
  by (rule py3_safe_fixed) (rule py3_safe_no_pairs)

section \<open>What a pattern matches\<close>

text \<open>
  The strings a pattern matches, as a set.  A remainder is in \<open>rmatch r s\<close> exactly when what
  precedes it in \<open>s\<close> is in the language of \<open>r\<close>; so a match at the start of a string is
  still there when the string is extended.
\<close>

fun lang :: "regex \<Rightarrow> string set" where
  "lang (Cls cs) = {[c] | c. c \<in> set cs}"
| "lang (Star cs) = {w. set w \<subseteq> set cs}"
| "lang (Plus cs) = {w. w \<noteq> [] \<and> set w \<subseteq> set cs}"
| "lang (Opt r) = insert [] (lang r)"
| "lang (Seq r1 r2) = {u @ v | u v. u \<in> lang r1 \<and> v \<in> lang r2}"

lemma many_sound: "rest \<in> set (many cs s) \<Longrightarrow> \<exists>m. s = m @ rest \<and> set m \<subseteq> set cs"
proof (induction s)
  case Nil then show ?case by simp
next
  case (Cons c s)
  show ?case
  proof (cases "c \<in> set cs \<and> rest \<in> set (many cs s)")
    case True
    then obtain m where "s = m @ rest" "set m \<subseteq> set cs" using Cons.IH by blast
    then have "c # s = (c # m) @ rest \<and> set (c # m) \<subseteq> set cs" using True by simp
    then show ?thesis by blast
  next
    case False
    then have "rest = c # s" using Cons.prems by (auto split: if_splits)
    then have "c # s = [] @ rest \<and> set [] \<subseteq> set cs" by simp
    then show ?thesis by blast
  qed
qed

lemma many_self: "s \<in> set (many cs s)"
  by (cases s) auto

lemma many_complete: "set m \<subseteq> set cs \<Longrightarrow> rest \<in> set (many cs (m @ rest))"
  by (induction m) (auto simp: many_self)

lemma rmatch_sound: "rest \<in> set (rmatch r s) \<Longrightarrow> \<exists>m. s = m @ rest \<and> m \<in> lang r"
proof (induction r arbitrary: s rest)
  case (Cls cs)
  then show ?case by (cases s) (auto split: if_splits)
next
  case (Star cs)
  then show ?case using many_sound[of rest cs s] by auto
next
  case (Plus cs)
  show ?case
  proof (cases s)
    case Nil then show ?thesis using Plus by simp
  next
    case (Cons c t)
    then have c: "c \<in> set cs" and "rest \<in> set (many cs t)" using Plus by (auto split: if_splits)
    then obtain m where "t = m @ rest" "set m \<subseteq> set cs" using many_sound by blast
    then have "s = (c # m) @ rest \<and> c # m \<in> lang (Plus cs)" using Cons c by simp
    then show ?thesis by blast
  qed
next
  case (Opt r)
  then have "rest \<in> set (rmatch r s) \<or> rest = s" by auto
  then show ?case
  proof
    assume "rest \<in> set (rmatch r s)"
    then show ?thesis using Opt.IH by fastforce
  next
    assume "rest = s"
    then have "s = [] @ rest \<and> [] \<in> lang (Opt r)" by simp
    then show ?thesis by blast
  qed
next
  case (Seq r1 r2)
  then obtain mid where mid: "mid \<in> set (rmatch r1 s)" "rest \<in> set (rmatch r2 mid)" by auto
  obtain u where u: "s = u @ mid" "u \<in> lang r1" using Seq.IH(1)[OF mid(1)] by blast
  obtain v where v: "mid = v @ rest" "v \<in> lang r2" using Seq.IH(2)[OF mid(2)] by blast
  have "s = (u @ v) @ rest \<and> u @ v \<in> lang (Seq r1 r2)" using u v by auto
  then show ?case by blast
qed

lemma rmatch_complete: "m \<in> lang r \<Longrightarrow> rest \<in> set (rmatch r (m @ rest))"
proof (induction r arbitrary: m rest)
  case (Cls cs) then show ?case by auto
next
  case (Star cs) then show ?case by (simp add: many_complete)
next
  case (Plus cs)
  then obtain c t where "m = c # t" by (cases m) auto
  then show ?case using Plus by (simp add: many_complete)
next
  case (Opt r) then show ?case by auto
next
  case (Seq r1 r2)
  then obtain u v where uv: "m = u @ v" "u \<in> lang r1" "v \<in> lang r2" by auto
  have "v @ rest \<in> set (rmatch r1 (u @ v @ rest))" using Seq.IH(1)[OF uv(2)] .
  moreover have "rest \<in> set (rmatch r2 (v @ rest))" using Seq.IH(2)[OF uv(3)] .
  ultimately show ?case using uv(1) by auto
qed

lemma regex_match_iff: "regex_match r s \<longleftrightarrow> (\<exists>m rest. s = m @ rest \<and> m \<in> lang r)"
proof
  assume "regex_match r s"
  then obtain rest where "rest \<in> set (rmatch r s)" by (cases "rmatch r s") (auto simp: regex_match_def)
  then show "\<exists>m rest. s = m @ rest \<and> m \<in> lang r" using rmatch_sound by blast
next
  assume "\<exists>m rest. s = m @ rest \<and> m \<in> lang r"
  then obtain m rest where "s = m @ rest" "m \<in> lang r" by blast
  then have "rest \<in> set (rmatch r s)" using rmatch_complete by blast
  then show "regex_match r s" by (auto simp: regex_match_def)
qed

lemma regex_match_append: "regex_match r s \<Longrightarrow> regex_match r (s @ w)"
  unfolding regex_match_iff by (metis append.assoc)


lemma regex_search_Some:
  "regex_search r s = Some (t, m, rest) \<Longrightarrow>
     s = t @ m @ rest \<and> m \<in> lang r \<and> (t = [] \<or> \<not> regex_match r t)"
proof (induction s arbitrary: t)
  case Nil
  then have "rmatch r [] \<noteq> []"
    by (subst (asm) regex_search.simps) (auto split: list.splits)
  then obtain x xs where x: "rmatch r [] = x # xs" by (cases "rmatch r []") auto
  then have eq: "t = []" "m = take (0 - length x) []" "rest = x"
    using Nil by (subst (asm) regex_search.simps, simp)+
  have "x \<in> set (rmatch r [])" using x by simp
  then obtain m' where "[] = m' @ x" "m' \<in> lang r" using rmatch_sound by blast
  then show ?case using eq by simp
next
  case (Cons c s)
  show ?case
  proof (cases "rmatch r (c # s)")
    case (Cons x xs)
    then have eq: "t = []" "m = take (length (c # s) - length x) (c # s)" "rest = x"
      using Cons.prems by (subst (asm) regex_search.simps, simp)+
    have "x \<in> set (rmatch r (c # s))" using Cons by simp
    then obtain m' where m': "c # s = m' @ x" "m' \<in> lang r" using rmatch_sound by blast
    then have "take (length (c # s) - length x) (c # s) = m'" by simp
    then show ?thesis using eq m' by simp
  next
    case Nil
    then obtain t' where t': "regex_search r s = Some (t', m, rest)" "t = c # t'"
      using Cons.prems by (subst (asm) regex_search.simps) (auto split: option.splits)
    have ih: "s = t' @ m @ rest" "m \<in> lang r" using Cons.IH[OF t'(1)] by auto
    have "\<not> regex_match r (c # s)" using Nil by (simp add: regex_match_def)
    then have "\<not> regex_match r ((c # t') @ (m @ rest))" using ih(1) by simp
    then have "\<not> regex_match r (c # t')" using regex_match_append by blast
    then show ?thesis using ih t'(2) by simp
  qed
qed

section \<open>\<open>int\<close> and \<open>float\<close> accept what the patterns match\<close>

definition accepts :: "numconv \<Rightarrow> string \<Rightarrow> bool" where
  "accepts conv x = (case convert conv x of Inl _ \<Rightarrow> False | Inr _ \<Rightarrow> True)"

definition pattern_ok :: "regex \<Rightarrow> numconv \<Rightarrow> bool" where
  "pattern_ok r conv = (\<forall>m \<in> lang r. (\<exists>c \<in> set m. c \<in> set digit) \<and> accepts conv m)"

lemma not_sign_digit: "c \<in> set digit \<Longrightarrow> c \<noteq> CHR ''-'' \<and> c \<noteq> CHR ''+'' \<and> c \<noteq> CHR ''.'' \<and> c \<notin> set eE"
  by (auto simp: digit_def eE_def)

lemma is_digits_iff: "is_digits ds \<longleftrightarrow> ds \<noteq> [] \<and> set ds \<subseteq> set digit"
  by (auto simp: is_digits_def list_all_iff)

lemma is_digits_has_digit: "is_digits ds \<Longrightarrow> \<exists>c \<in> set ds. c \<in> set digit"
  by (cases ds) (auto simp: is_digits_iff)

lemma split_sign_digits: "is_digits ds \<Longrightarrow> split_sign ds = (False, ds)"
  by (cases ds) (auto simp: split_sign_def is_digits_iff dest: not_sign_digit)

lemma split_sign_sign: "c \<in> set sign \<Longrightarrow> split_sign (c # s) = (c = CHR ''-'', s)"
  by (auto simp: split_sign_def sign_def)

lemma split_sign_other: "c \<noteq> CHR ''-'' \<Longrightarrow> c \<noteq> CHR ''+'' \<Longrightarrow> split_sign (c # s) = (False, c # s)"
  by (auto simp: split_sign_def)

definition opt_sign :: "string \<Rightarrow> bool" where
  "opt_sign sg = (sg = [] \<or> (\<exists>c. sg = [c] \<and> c \<in> set sign))"

lemma lang_opt_sign: "sg \<in> lang (Opt (Cls sign)) \<longleftrightarrow> opt_sign sg"
  by (auto simp: opt_sign_def)

lemma signed_value_ok:
  "opt_sign sg \<Longrightarrow> is_digits ds \<Longrightarrow>
     signed_value (sg @ ds) = Some (if sg = ''-'' then - int (digits_value ds) else int (digits_value ds))"
  by (auto simp: opt_sign_def signed_value_def split_sign_digits split_sign_sign sign_def)

lemma lang_exponent:
  "ex \<in> lang exponent \<longleftrightarrow>
     ex = [] \<or> (\<exists>c sg ds. ex = c # sg @ ds \<and> c \<in> set eE \<and> opt_sign sg \<and> is_digits ds)"
  unfolding exponent_def lang.simps opt_sign_def is_digits_iff
  by (auto simp: ) (metis append_Cons append_Nil)+

lemma exponent_value_ok: "ex \<in> lang exponent \<Longrightarrow> \<exists>e. exponent_value ex = Some e"
  by (auto simp: lang_exponent exponent_value_def signed_value_ok)

lemma exponent_no_digit: "ex \<in> lang exponent \<Longrightarrow> takeWhile (\<lambda>c. c \<in> set digit) ex = [] \<and> dropWhile (\<lambda>c. c \<in> set digit) ex = ex"
  by (auto simp: lang_exponent dest: not_sign_digit)

lemma takeWhile_digits: "set ds \<subseteq> set digit \<Longrightarrow> takeWhile (\<lambda>c. c \<in> set digit) (ds @ r) = ds @ takeWhile (\<lambda>c. c \<in> set digit) r"
  by (rule takeWhile_append2) auto

lemma dropWhile_digits: "set ds \<subseteq> set digit \<Longrightarrow> dropWhile (\<lambda>c. c \<in> set digit) (ds @ r) = dropWhile (\<lambda>c. c \<in> set digit) r"
  by (rule dropWhile_append2) auto

lemma dot_not_digit: "CHR ''.'' \<notin> set digit" by (simp add: digit_def)

lemma py_float_unsigned_nodot:
  assumes "set i \<subseteq> set digit" "is_digits f" "ex \<in> lang exponent"
    and that: "split_sign (sg @ i @ f @ ex) = (neg, i @ f @ ex)"
  shows "\<exists>e. exponent_value ex = Some e \<and>
     py_float (sg @ i @ f @ ex) = Some (round_double (if neg then - (of_nat (digits_value (i @ f)) * pow10 e) else of_nat (digits_value (i @ f)) * pow10 e))"
proof -
  obtain e where e: "exponent_value ex = Some e" using exponent_value_ok assms(3) by blast
  have f: "set f \<subseteq> set digit" "f \<noteq> []" using assms(2) by (auto simp: is_digits_iff)
  have tw: "takeWhile (\<lambda>c. c \<in> set digit) (i @ f @ ex) = i @ f"
    using assms(1) f exponent_no_digit[OF assms(3)] by (simp add: takeWhile_digits)
  have dw: "dropWhile (\<lambda>c. c \<in> set digit) (i @ f @ ex) = ex"
    using assms(1) f exponent_no_digit[OF assms(3)] by (simp add: dropWhile_digits)
  have nd: "(case ex of [] \<Rightarrow> [] | c # t \<Rightarrow> if c = CHR ''.'' then takeWhile (\<lambda>c. c \<in> set digit) t else []) = []"
     "(case ex of [] \<Rightarrow> [] | c # t \<Rightarrow> if c = CHR ''.'' then dropWhile (\<lambda>c. c \<in> set digit) t else ex) = ex"
    using assms(3) by (auto simp: lang_exponent eE_def split: list.splits)
  show ?thesis
    unfolding py_float_def that prod.case Let_def tw dw nd using e f by simp
qed

lemma py_float_unsigned_dot:
  assumes "set i \<subseteq> set digit" "is_digits f" "ex \<in> lang exponent"
    and that: "split_sign (sg @ i @ CHR ''.'' # f @ ex) = (neg, i @ CHR ''.'' # f @ ex)"
  shows "\<exists>e. exponent_value ex = Some e \<and>
     py_float (sg @ i @ CHR ''.'' # f @ ex) = Some (round_double (if neg then - (of_nat (digits_value (i @ f)) * pow10 (e - int (length f))) else of_nat (digits_value (i @ f)) * pow10 (e - int (length f))))"
proof -
  obtain e where e: "exponent_value ex = Some e" using exponent_value_ok assms(3) by blast
  have f: "set f \<subseteq> set digit" "f \<noteq> []" using assms(2) by (auto simp: is_digits_iff)
  have tw: "takeWhile (\<lambda>c. c \<in> set digit) (i @ CHR ''.'' # f @ ex) = i"
    using assms(1) dot_not_digit by (simp add: takeWhile_digits)
  have dw: "dropWhile (\<lambda>c. c \<in> set digit) (i @ CHR ''.'' # f @ ex) = CHR ''.'' # f @ ex"
    using assms(1) dot_not_digit by (simp add: dropWhile_digits)
  have tw2: "takeWhile (\<lambda>c. c \<in> set digit) (f @ ex) = f"
    using f exponent_no_digit[OF assms(3)] by (simp add: takeWhile_digits)
  have dw2: "dropWhile (\<lambda>c. c \<in> set digit) (f @ ex) = ex"
    using f exponent_no_digit[OF assms(3)] by (simp add: dropWhile_digits)
  show ?thesis
    unfolding py_float_def that prod.case Let_def tw dw list.case if_True tw2 dw2 using e f by simp
qed

lemma lang_mantissa:
  "ma \<in> lang mantissa \<longleftrightarrow>
     (\<exists>i f. set i \<subseteq> set digit \<and> is_digits f \<and> (ma = i @ f \<or> ma = i @ CHR ''.'' # f))"
  unfolding mantissa_def lang.simps is_digits_iff dot_def
  by auto (metis append_Cons append_Nil)+

lemma mantissa_head:
  assumes "ma \<in> lang mantissa"
  shows "\<exists>c t. ma = c # t \<and> c \<noteq> CHR ''-'' \<and> c \<noteq> CHR ''+''"
proof -
  obtain i f where if_: "set i \<subseteq> set digit" "is_digits f" "ma = i @ f \<or> ma = i @ CHR ''.'' # f"
    using assms lang_mantissa by blast
  show ?thesis
  proof (cases i)
    case Nil
    obtain d f' where f: "f = d # f'" "d \<in> set digit" using if_(2) by (cases f) (auto simp: is_digits_iff)
    then show ?thesis using if_(3) Nil not_sign_digit[of d] by auto
  next
    case (Cons d i')
    then have "d \<in> set digit" using if_(1) by simp
    then show ?thesis using if_(3) Cons not_sign_digit[of d] by auto
  qed
qed

lemma split_sign_mantissa:
  assumes "opt_sign sg" "ma \<in> lang mantissa"
  shows "split_sign (sg @ ma @ ex) = (sg = ''-'', ma @ ex)"
proof -
  obtain c t where ct: "ma = c # t" "c \<noteq> CHR ''-''" "c \<noteq> CHR ''+''"
    using mantissa_head[OF assms(2)] by blast
  show ?thesis
  proof (cases "sg = []")
    case True
    then show ?thesis using ct by (simp add: split_sign_other)
  next
    case False
    then obtain s where "sg = [s]" "s \<in> set sign" using assms(1) by (auto simp: opt_sign_def)
    then show ?thesis by (simp add: split_sign_sign)
  qed
qed

lemma py_float_form:
  assumes "opt_sign sg" "ma \<in> lang mantissa" "ex \<in> lang exponent"
  shows "\<exists>f. py_float (sg @ ma @ ex) = Some f"
proof -
  obtain i f where if_: "set i \<subseteq> set digit" "is_digits f" "ma = i @ f \<or> ma = i @ CHR ''.'' # f"
    using assms(2) lang_mantissa by blast
  have ss: "split_sign (sg @ ma @ ex) = (sg = ''-'', ma @ ex)"
    using split_sign_mantissa[OF assms(1,2)] .
  from if_(3) show ?thesis
  proof
    assume ma: "ma = i @ f"
    then have "split_sign (sg @ i @ f @ ex) = (sg = ''-'', i @ f @ ex)" using ss by simp
    from py_float_unsigned_nodot[OF if_(1,2) assms(3) this] show ?thesis using ma by auto
  next
    assume ma: "ma = i @ CHR ''.'' # f"
    then have "split_sign (sg @ i @ CHR ''.'' # f @ ex) = (sg = ''-'', i @ CHR ''.'' # f @ ex)"
      using ss by simp
    from py_float_unsigned_dot[OF if_(1,2) assms(3) this] show ?thesis using ma by auto
  qed
qed

lemma float_form_ok:
  assumes "opt_sign sg" "ma \<in> lang mantissa" "ex \<in> lang exponent"
  shows "(\<exists>c \<in> set (sg @ ma @ ex). c \<in> set digit) \<and> accepts Conv_float (sg @ ma @ ex)"
proof -
  obtain f where "py_float (sg @ ma @ ex) = Some f" using py_float_form[OF assms] by blast
  moreover have "\<exists>c \<in> set ma. c \<in> set digit"
  proof -
    obtain i f where "is_digits f" "ma = i @ f \<or> ma = i @ CHR ''.'' # f"
      using assms(2) lang_mantissa by blast
    then show ?thesis using is_digits_has_digit[of f] by auto
  qed
  ultimately show ?thesis by (auto simp: accepts_def convert_def)
qed

lemma int_form_ok:
  assumes "opt_sign sg" "is_digits ds"
  shows "(\<exists>c \<in> set (sg @ ds). c \<in> set digit) \<and> accepts Conv_int (sg @ ds)"
proof -
  have "\<exists>c \<in> set ds. c \<in> set digit" using is_digits_has_digit[OF assms(2)] .
  then show ?thesis
    using signed_value_ok[OF assms] by (auto simp: accepts_def convert_def py_int_def)
qed

lemma empty_exponent: "[] \<in> lang exponent"
  by (simp add: exponent_def)

lemma opt_sign_Nil: "opt_sign []"
  by (simp add: opt_sign_def)

lemma ok_float_sign_exp: "pattern_ok float_sign_exp_re Conv_float"
  unfolding pattern_ok_def float_sign_exp_re_def
  by (auto simp only: lang.simps(5) mem_Collect_eq lang_opt_sign dest!: float_form_ok) 

lemma ok_float_nosign_exp: "pattern_ok float_nosign_exp_re Conv_float"
  unfolding pattern_ok_def float_nosign_exp_re_def
proof
  fix m assume "m \<in> lang (Seq mantissa exponent)"
  then obtain ma ex where "m = ma @ ex" "ma \<in> lang mantissa" "ex \<in> lang exponent" by auto
  then show "(\<exists>c \<in> set m. c \<in> set digit) \<and> accepts Conv_float m" using float_form_ok[OF opt_sign_Nil, of ma ex] by simp
qed

lemma ok_float_sign_noexp: "pattern_ok float_sign_noexp_re Conv_float"
  unfolding pattern_ok_def float_sign_noexp_re_def
proof
  fix m assume "m \<in> lang (Seq (Opt (Cls sign)) mantissa)"
  then obtain sg ma where "m = sg @ ma" "opt_sign sg" "ma \<in> lang mantissa"
    by (auto simp only: lang.simps(5) mem_Collect_eq lang_opt_sign)
  then show "(\<exists>c \<in> set m. c \<in> set digit) \<and> accepts Conv_float m"
    using float_form_ok[of sg ma "[]"] empty_exponent by simp
qed

lemma ok_float_nosign_noexp: "pattern_ok float_nosign_noexp_re Conv_float"
  unfolding pattern_ok_def float_nosign_noexp_re_def
proof
  fix m assume "m \<in> lang mantissa"
  then show "(\<exists>c \<in> set m. c \<in> set digit) \<and> accepts Conv_float m"
    using float_form_ok[OF opt_sign_Nil, of m "[]"] empty_exponent by simp
qed

lemma ok_int_nosign: "pattern_ok int_nosign_re Conv_int"
  unfolding pattern_ok_def int_nosign_re_def
proof
  fix m assume "m \<in> lang (Plus digit)"
  then have "is_digits m" by (simp add: is_digits_iff)
  then show "(\<exists>c \<in> set m. c \<in> set digit) \<and> accepts Conv_int m" using int_form_ok[OF opt_sign_Nil] by simp
qed

lemma ok_int_sign: "pattern_ok int_sign_re Conv_int"
  unfolding pattern_ok_def int_sign_re_def
proof
  fix m assume "m \<in> lang (Seq (Opt (Cls sign)) (Plus digit))"
  then obtain sg ds where "m = sg @ ds" "opt_sign sg" "ds \<in> lang (Plus digit)"
    by (auto simp only: lang.simps(5) mem_Collect_eq lang_opt_sign)
  then show "(\<exists>c \<in> set m. c \<in> set digit) \<and> accepts Conv_int m"
    using int_form_ok[of sg ds] by (simp add: is_digits_iff)
qed

lemma dict_get_in: "dict_get d k = Some v \<Longrightarrow> v \<in> snd ` set d"
  by (induction d k rule: dict_get.induct) (auto split: if_splits)

lemma chooser_ok:
  assumes "dict_get regex_and_num_function_chooser k = Some (r, conv)"
  shows "pattern_ok r conv"
proof -
  have "(r, conv) \<in> snd ` set regex_and_num_function_chooser"
    using dict_get_in[OF assms] .
  then have "(r, conv) \<in> {(float_sign_exp_re, Conv_float), (float_sign_noexp_re, Conv_float),
      (float_nosign_exp_re, Conv_float), (float_nosign_noexp_re, Conv_float),
      (int_sign_re, Conv_int), (int_nosign_re, Conv_int)}"
    by (auto simp: regex_and_num_function_chooser_def)
  then show ?thesis
    using ok_float_sign_exp ok_float_sign_noexp ok_float_nosign_exp ok_float_nosign_noexp
      ok_int_sign ok_int_nosign by auto
qed

section \<open>\<open>_number_finder\<close> returns a list that begins with a string\<close>


lemma regex_split_None: "regex_search r s = None \<Longrightarrow> regex_split r s = [s]"
  by (subst regex_split.simps) simp

lemma regex_split_Some:
  assumes "regex_search r s = Some (t, m, rest)" "m \<noteq> []"
  shows "regex_split r s = t # m # regex_split r rest"
proof -
  have "s = t @ m @ rest" using regex_search_Some[OF assms(1)] by simp
  then have "length rest < length s" using assms(2) by simp
  then show ?thesis using assms(1) by (subst regex_split.simps) simp
qed




lemma pattern_ok_no_empty_match: "pattern_ok r conv \<Longrightarrow> \<not> regex_match r []"
  by (auto simp: pattern_ok_def regex_match_iff)








lemma number_finder_no_match:
  "regex_search r s = None \<Longrightarrow> number_finder s r conv py3 = Inr [Text s]"
  by (simp add: number_finder_def regex_split_None)


section \<open>\<open>_natsort_key\<close>: invalid options, and the three kinds of values\<close>




lemma natsort_key_Str:
  assumes "dict_get regex_and_num_function_chooser (number_type, signed, exp') = Some (r, conv)"
    and "pre key val = Str x"
  shows "natsort_key val key number_type signed exp' py3 =
     (case number_finder x r conv py3 of Inl e \<Rightarrow> Inl e | Inr ts \<Rightarrow> Inr (Tuple ts))"
  using assms by (subst natsort_key.simps) simp







lemma no_digit_no_search:
  assumes ok: "pattern_ok r conv" and nd: "list_all (\<lambda>c. c \<notin> set digit) x"
  shows "regex_search r x = None"
proof (cases "regex_search r x")
  case None then show ?thesis .
next
  case (Some p)
  obtain t m rest where sm: "regex_search r x = Some (t, m, rest)" using Some by (cases p) auto
  have "x = t @ m @ rest" "m \<in> lang r" using regex_search_Some[OF sm] by auto
  moreover have "\<exists>c \<in> set m. c \<in> set digit" using ok \<open>m \<in> lang r\<close> by (simp add: pattern_ok_def)
  ultimately show ?thesis using nd by (auto simp: list_all_iff)
qed

lemma chooser_default:
  "dict_get regex_and_num_function_chooser (Type_float, PyBool True, PyBool True) = Some (float_sign_exp_re, Conv_float)"
  by (simp add: regex_and_num_function_chooser_def)



section \<open>Strings without a match, numbers, and errors\<close>

text \<open>
  C8.  When the pattern selected by a valid configuration finds no match in a string, in
  particular when the string has no digit (the empty string included), the key is the
  one-element tuple holding the string unchanged.
\<close>

theorem natsort_key_no_match:
  assumes "dict_get regex_and_num_function_chooser (number_type, signed, exp') = Some (regex, num_function)"
    and "pre key val = Str s"
    and "regex_search regex s = None \<or> list_all (\<lambda>c. c \<notin> set digit) s"
  shows "natsort_key val key number_type signed exp' py3 = Inr (Tuple [Text s])"
proof -
  have "regex_search regex s = None"
    using assms(3) no_digit_no_search[OF chooser_ok[OF assms(1)]] by blast
  then show ?thesis
    using natsort_key_Str[OF assms(1,2), of py3] by (simp add: number_finder_no_match)
qed

theorem natsort_key_no_match_witness:
  "natsort_key (Str ''num-'') None Type_float (PyBool True) (PyBool True) False = Inr (Tuple [Text ''num-''])
   \<and> natsort_key (Str '''') None Type_float (PyBool True) (PyBool True) False = Inr (Tuple [Text ''''])"
  using natsort_key_no_match[OF chooser_default, where key = None and val = "Str ''num-''" and s = "''num-''" and ?py3.0 = False]
    natsort_key_no_match[OF chooser_default, where key = None and val = "Str ''''" and s = "''''" and ?py3.0 = False]
  by (simp add: digit_def)





section \<open>\<open>number_type = None\<close>\<close>






lemma regex_search_whole: "rmatch r s = [] # X \<Longrightarrow> regex_search r s = Some ([], s, [])"
  by (subst regex_search.simps) simp


lemma regex_split_empty: "pattern_ok r conv \<Longrightarrow> regex_split r [] = [[]]"
proof -
  assume "pattern_ok r conv"
  then have "rmatch r [] = []" using pattern_ok_no_empty_match by (simp add: regex_match_def)
  then have "regex_search r [] = None" by (subst regex_search.simps) simp
  then show ?thesis by (rule regex_split_None)
qed







section \<open>Nested sequences and the pre-transform\<close>







section \<open>\<open>natsort_keygen\<close>\<close>




section \<open>Integer strings under the default configuration\<close>

lemma many_last_two:
  "set ds \<subseteq> set cs \<Longrightarrow> d \<in> set cs \<Longrightarrow> \<exists>X. many cs (ds @ [d]) = [] # [d] # X"
  by (induction ds) auto

lemma digit_not_dot: "d \<in> set digit \<Longrightarrow> d \<notin> set dot"
  by (auto simp: digit_def dot_def)

lemma digit_not_sign: "d \<in> set digit \<Longrightarrow> d \<notin> set sign"
  by (auto simp: digit_def sign_def)

lemma rmatch_mantissa_digits:
  assumes "is_digits ds"
  shows "\<exists>X. rmatch mantissa ds = [] # X"
proof -
  obtain ds' d where ds: "ds = ds' @ [d]" using assms by (cases ds rule: rev_cases) (auto simp: is_digits_iff)
  have d: "d \<in> set digit" "set ds' \<subseteq> set digit" using assms ds by (auto simp: is_digits_iff)
  obtain X where X: "many digit (ds' @ [d]) = [] # [d] # X" using many_last_two[OF d(2,1)] by blast
  show ?thesis
    unfolding mantissa_def ds using digit_not_dot[OF d(1)] d(1) by (simp add: X)
qed

lemma rmatch_exponent_Nil: "rmatch exponent [] = [[]]"
  by (simp add: exponent_def)

lemma rmatch_float_digits:
  assumes "is_digits ds"
  shows "\<exists>X. rmatch (Seq mantissa exponent) ds = [] # X"
proof -
  obtain X where "rmatch mantissa ds = [] # X" using rmatch_mantissa_digits[OF assms] by blast
  then show ?thesis by (simp add: rmatch_exponent_Nil)
qed

lemma rmatch_float_sign_exp_int:
  assumes "opt_sign sg" "is_digits ds"
  shows "\<exists>X. rmatch float_sign_exp_re (sg @ ds) = [] # X"
proof -
  obtain X where X: "rmatch (Seq mantissa exponent) ds = [] # X"
    using rmatch_float_digits[OF assms(2)] by blast
  obtain d ds' where ds: "ds = d # ds'" "d \<in> set digit"
    using assms(2) by (cases ds) (auto simp: is_digits_iff)
  show ?thesis
  proof (cases "sg = []")
    case True
    have "rmatch (Opt (Cls sign)) ds = [ds]" using ds digit_not_sign by simp
    then show ?thesis unfolding float_sign_exp_re_def using True X by simp
  next
    case False
    then obtain c where c: "sg = [c]" "c \<in> set sign" using assms(1) by (auto simp: opt_sign_def)
    have o: "rmatch (Opt (Cls sign)) (c # ds) = [ds, c # ds]" using c(2) by simp
    have "rmatch float_sign_exp_re (c # ds)
        = concat (map (rmatch (Seq mantissa exponent)) (rmatch (Opt (Cls sign)) (c # ds)))"
      unfolding float_sign_exp_re_def by (simp only: rmatch.simps(5))
    then have "rmatch float_sign_exp_re (c # ds)
        = rmatch (Seq mantissa exponent) ds @ rmatch (Seq mantissa exponent) (c # ds)"
      unfolding o by simp
    then show ?thesis using X c(1) by simp
  qed
qed

lemma is_int_string_form:
  "is_int_string a \<Longrightarrow> \<exists>sg ds. a = sg @ ds \<and> opt_sign sg \<and> is_digits ds"
proof -
  assume "is_int_string a"
  then have d: "is_digits (snd (split_sign a))"
    by (auto simp: is_int_string_def py_int_def signed_value_def split: prod.splits if_splits)
  show ?thesis
  proof (cases a)
    case Nil
    then show ?thesis using d by (simp add: split_sign_def is_digits_def)
  next
    case (Cons c t)
    show ?thesis
    proof (cases "c \<in> set sign")
      case True
      then have "a = [c] @ t \<and> opt_sign [c] \<and> is_digits t"
        using d Cons by (auto simp: split_sign_def opt_sign_def sign_def)
      then show ?thesis by blast
    next
      case False
      then have "a = [] @ a \<and> opt_sign [] \<and> is_digits a"
        using d Cons by (auto simp: split_sign_def opt_sign_def sign_def)
      then show ?thesis by blast
    qed
  qed
qed

lemma py_float_int_string:
  assumes "opt_sign sg" "is_digits ds"
  shows "py_float (sg @ ds) = Some (round_double (of_int (int_of_string (sg @ ds))))"
proof -
  have ss: "split_sign (sg @ [] @ ds @ []) = (sg = ''-'', [] @ ds @ [])"
    using assms by (cases "sg = []") (auto simp: split_sign_digits opt_sign_def split_sign_sign sign_def)
  have "exponent_value [] = Some 0" by (simp add: exponent_value_def)
  then have "py_float (sg @ ds) = Some (round_double (if sg = ''-'' then - of_nat (digits_value ds) else of_nat (digits_value ds)))"
    using py_float_unsigned_nodot[OF _ assms(2) empty_exponent ss]
    by (simp add: pow10_def)
  moreover have "int_of_string (sg @ ds) = (if sg = ''-'' then - int (digits_value ds) else int (digits_value ds))"
    using signed_value_ok[OF assms] by (simp add: int_of_string_def py_int_def)
  ultimately show ?thesis by simp
qed

lemma int_string_key:
  assumes "is_int_string a"
  shows "natsort_key (Str a) None Type_float (PyBool True) (PyBool True) py3
     = Inr (Tuple [Text '''', Numeric (FloatV (round_double (of_int (int_of_string a))))])"
proof -
  obtain sg ds where a: "a = sg @ ds" "opt_sign sg" "is_digits ds"
    using is_int_string_form[OF assms] by blast
  have ne: "a \<noteq> []" using a by (auto simp: is_digits_iff)
  obtain X where X: "rmatch float_sign_exp_re a = [] # X"
    using rmatch_float_sign_exp_int[OF a(2,3)] a(1) by blast
  have s: "regex_search float_sign_exp_re a = Some ([], a, [])"
    using regex_search_whole[OF X] .
  have split: "regex_split float_sign_exp_re a = [[], a, []]"
    using regex_split_Some[OF s ne] regex_split_empty[OF ok_float_sign_exp] by simp
  have "regex_match float_sign_exp_re a" using X by (simp add: regex_match_def)
  then have m: "convert_piece float_sign_exp_re Conv_float a
      = Inr (Numeric (FloatV (round_double (of_int (int_of_string a)))))"
    using py_float_int_string[OF a(2,3)] a(1) by (simp add: convert_piece_def convert_def)
  have "number_finder a float_sign_exp_re Conv_float py3
      = Inr [Text '''', Numeric (FloatV (round_double (of_int (int_of_string a))))]"
    unfolding number_finder_def split using ne
    by (simp add: m lead_with_string_def py3_safe_Cons)
  then show ?thesis
    using natsort_key_Str[OF chooser_default, where key = None and val = "Str a" and x = a]
    by simp
qed

lemma bit_length_0: "bit_length 0 = 0"
  by (subst bit_length.simps) simp

lemma bit_length_1: "bit_length (Suc 0) = Suc 0"
  by (subst bit_length.simps) (simp add: bit_length_0)

lemma bit_length_bounds: "0 < n \<Longrightarrow> 2 ^ (bit_length n - 1) \<le> n \<and> n < 2 ^ bit_length n"
proof (induction n rule: bit_length.induct)
  case (1 n)
  show ?case
  proof (cases "n div 2 = 0")
    case True
    then have "n = 1" using "1.prems" by linarith
    then show ?thesis by (simp add: bit_length_1)
  next
    case False
    then have ih: "2 ^ (bit_length (n div 2) - 1) \<le> n div 2" "n div 2 < 2 ^ bit_length (n div 2)"
      using "1.IH" "1.prems" by auto
    have pos: "0 < bit_length (n div 2)" using False by (subst bit_length.simps) simp
    have bl: "bit_length n = Suc (bit_length (n div 2))" using "1.prems" by (subst bit_length.simps) simp
    have "2 * 2 ^ (bit_length (n div 2) - 1) \<le> n" using ih(1) by linarith
    moreover have "2 * 2 ^ (bit_length (n div 2) - 1) = (2::nat) ^ bit_length (n div 2)"
      using pos by (cases "bit_length (n div 2)") auto
    moreover have "n < 2 * 2 ^ bit_length (n div 2)" using ih(2) by linarith
    ultimately show ?thesis by (simp add: bl)
  qed
qed

lemma round_half_even_int: "round_half_even (of_int k) = k"
  by (simp add: round_half_even_def Let_def)

lemma round_double_nat_exact:
  assumes "m \<le> 2 ^ 53"
  shows "round_double (of_nat m) = Finite (of_nat m)"
    and "round_double (- of_nat m) = Finite (- of_nat m)"
proof -
  have "round_double (of_nat m) = Finite (of_nat m) \<and> round_double (- of_nat m) = Finite (- of_nat m)"
  proof (cases "m = 0")
    case True
    then show ?thesis by (simp add: round_double_def)
  next
    case False
    then have pos: "0 < m" by simp
    define L where "L = bit_length m"
    have b: "2 ^ (L - 1) \<le> m" "m < 2 ^ L" using bit_length_bounds[OF pos] by (simp_all add: L_def)
    have Lpos: "0 < L" using pos unfolding L_def by (subst bit_length.simps) simp
    have "L - 1 \<le> 53"
    proof (rule power_le_imp_le_exp[of "2::nat"])
      show "1 < (2::nat)" by simp
      show "(2::nat) ^ (L - 1) \<le> 2 ^ 53" using b(1) assms by linarith
    qed
    then have L54: "L \<le> 54" by simp
    have bin: "binade (of_nat m) = int L - 1"
      using pos by (simp add: binade_def L_def)
    have mx: "max (int L - 1 - 52) (- 1074) = int L - 53" using Lpos by simp
    have ex: "\<exists>k. (of_nat m :: rat) / pow2 (int L - 53) = of_int k"
    proof (cases "L \<le> 53")
      case True
      then have "pow2 (int L - 53) = 1 / 2 ^ (53 - L)"
        using Lpos by (cases "L = 53") (auto simp: pow2_def nat_diff_distrib)
      then have "(of_nat m :: rat) / pow2 (int L - 53) = of_int (int m * 2 ^ (53 - L))" by simp
      then show ?thesis by blast
    next
      case False
      then have L: "L = 54" using L54 by simp
      then have "m = 2 ^ 53" using b(1) assms by simp
      then have "(of_nat m :: rat) / pow2 (int L - 53) = of_int (2 ^ 52)" using L by (simp add: pow2_def)
      then show ?thesis by blast
    qed
    then obtain k where k: "(of_nat m :: rat) / pow2 (int L - 53) = of_int k" by blast
    have p2: "pow2 (int L - 53) \<noteq> 0" by (simp add: pow2_def)
    have r: "of_int (round_half_even (of_nat m / pow2 (int L - 53))) * pow2 (int L - 53) = (of_nat m :: rat)"
      unfolding k round_half_even_int using k p2 by (metis nonzero_divide_eq_eq)
    have small: "\<not> (2::rat) ^ 1024 \<le> of_nat m"
    proof -
      have "(of_nat m :: rat) \<le> of_nat (2 ^ 53)" using assms of_nat_le_iff by blast
      also have "\<dots> < 2 ^ 1024" by simp
      finally show ?thesis by simp
    qed
    have abs: "\<bar>of_nat m :: rat\<bar> = of_nat m" "\<bar>- of_nat m :: rat\<bar> = of_nat m" by simp_all
    have nz: "(of_nat m :: rat) \<noteq> 0" "(of_nat m :: rat) > 0" using pos by simp_all
    show ?thesis
      unfolding round_double_def abs bin mx Let_def r using small nz by simp
  qed
  then show "round_double (of_nat m) = Finite (of_nat m)"
    and "round_double (- of_nat m) = Finite (- of_nat m)" by simp_all
qed

lemma round_double_int_exact:
  assumes "\<bar>i\<bar> \<le> 2 ^ 53"
  shows "round_double (of_int i) = Finite (of_int i)"
proof (cases "0 \<le> i")
  case True
  then have "nat i \<le> 2 ^ 53" using assms by (simp add: nat_le_iff)
  then show ?thesis using round_double_nat_exact(1)[of "nat i"] True by simp
next
  case False
  then have "nat (- i) \<le> 2 ^ 53" using assms by (simp add: nat_le_iff)
  then show ?thesis using round_double_nat_exact(2)[of "nat (- i)"] False by simp
qed

lemma bit_length_numeral: "bit_length (numeral k) = Suc (bit_length (numeral k div 2))"
  by (subst bit_length.simps) simp

lemma floor_rat_numeral: "\<lfloor>(numeral a :: rat) / numeral b\<rfloor> = numeral a div numeral b"
  using floor_divide_of_int_eq[of "numeral a" "numeral b", where ?'a = rat] by simp

text \<open>
  C1, amended.  Under the default configuration (\<open>float\<close>, signed, with exponent), for
  strings made of an optional sign and decimal digits whose values are at most \<open>2^53\<close> in
  absolute value (the integers every one of which a \<open>float\<close> holds exactly), the key of
  \<open>a\<close> is less than the key of \<open>b\<close> exactly when \<open>int(a) < int(b)\<close>, whatever the numbers
  of digits.
\<close>

theorem integer_strings_ordered:
  assumes "is_int_string a" "is_int_string b"
    and "\<bar>int_of_string a\<bar> \<le> 2 ^ 53" "\<bar>int_of_string b\<bar> \<le> 2 ^ 53"
  shows "\<exists>ka kb.
      natsort_key (Str a) None Type_float (PyBool True) (PyBool True) py3 = Inr ka
    \<and> natsort_key (Str b) None Type_float (PyBool True) (PyBool True) py3 = Inr kb
    \<and> key_lt ka kb = Some (int_of_string a < int_of_string b)"
proof -
  have "natsort_key (Str a) None Type_float (PyBool True) (PyBool True) py3
      = Inr (Tuple [Text '''', Numeric (FloatV (Finite (of_int (int_of_string a))))])"
    using int_string_key[OF assms(1)] round_double_int_exact[OF assms(3)] by simp
  moreover have "natsort_key (Str b) None Type_float (PyBool True) (PyBool True) py3
      = Inr (Tuple [Text '''', Numeric (FloatV (Finite (of_int (int_of_string b))))])"
    using int_string_key[OF assms(2)] round_double_int_exact[OF assms(4)] by simp
  ultimately show ?thesis by (auto simp: num_eq_def num_lt_def)
qed

lemma int_string_9: "is_int_string ''9''" "int_of_string ''9'' = 9"
  by (simp_all add: is_int_string_def int_of_string_def py_int_def signed_value_def split_sign_def
      is_digits_def digit_def digits_value_def digit_value_def)

lemma int_string_10: "is_int_string ''10''" "int_of_string ''10'' = 10"
  by (simp_all add: is_int_string_def int_of_string_def py_int_def signed_value_def split_sign_def
      is_digits_def digit_def digits_value_def digit_value_def)

theorem integer_strings_ordered_witness:
  "\<exists>ka kb.
      natsort_key (Str ''9'') None Type_float (PyBool True) (PyBool True) False = Inr ka
    \<and> natsort_key (Str ''10'') None Type_float (PyBool True) (PyBool True) False = Inr kb
    \<and> key_lt ka kb = Some True"
  using integer_strings_ordered[OF int_string_9(1) int_string_10(1), where ?py3.0 = False]
  by (simp add: int_string_9(2) int_string_10(2))

lemma int_string_2_53: "is_int_string ''9007199254740992''" "int_of_string ''9007199254740992'' = 9007199254740992"
  by (simp_all add: is_int_string_def int_of_string_def py_int_def signed_value_def split_sign_def
      is_digits_def digit_def digits_value_def digit_value_def)

lemma round_double_2_53: "round_double 9007199254740992 = Finite 9007199254740992"
  by (simp add: round_double_def binade_def round_half_even_def pow2_def Let_def
      bit_length_numeral bit_length_0 bit_length_1 floor_rat_numeral)

lemma int_string_2_53_plus_1: "is_int_string ''9007199254740993''" "int_of_string ''9007199254740993'' = 9007199254740993"
  by (simp_all add: is_int_string_def int_of_string_def py_int_def signed_value_def split_sign_def is_digits_def
      digit_def digits_value_def digit_value_def)

lemma round_double_2_53_plus_1: "round_double 9007199254740993 = Finite 9007199254740992"
  by (simp add: round_double_def binade_def round_half_even_def pow2_def Let_def
      bit_length_numeral bit_length_0 bit_length_1 floor_rat_numeral)

text \<open>
  C1 as stated fails beyond \<open>2^53\<close>: \<open>9007199254740992\<close> and \<open>9007199254740993\<close> are
  converted to the same \<open>float\<close>, so their keys are equal and neither is less than the
  other.
\<close>

theorem integer_strings_equal_keys:
  "is_int_string ''9007199254740992'' \<and> is_int_string ''9007199254740993''
   \<and> int_of_string ''9007199254740992'' < int_of_string ''9007199254740993''
   \<and> natsort_key (Str ''9007199254740992'') None Type_float (PyBool True) (PyBool True) False
       = Inr (Tuple [Text '''', Numeric (FloatV (Finite 9007199254740992))])
   \<and> natsort_key (Str ''9007199254740993'') None Type_float (PyBool True) (PyBool True) False
       = Inr (Tuple [Text '''', Numeric (FloatV (Finite 9007199254740992))])
   \<and> key_lt (Tuple [Text '''', Numeric (FloatV (Finite 9007199254740992))])
        (Tuple [Text '''', Numeric (FloatV (Finite 9007199254740992))]) = Some False"
  using int_string_key[OF int_string_2_53(1), where ?py3.0 = False]
    int_string_key[OF int_string_2_53_plus_1(1), where ?py3.0 = False]
  by (simp add: int_string_2_53_plus_1 int_string_2_53 round_double_2_53_plus_1 round_double_2_53 num_eq_def num_lt_def)

end
